theory Spec2Isabelle
  imports Main "HOL-Library.AList"
begin

section \<open>Errors and decoded values\<close>

text \<open>
  The four sentinel errors of \<^verbatim>\<open>bencode.go\<close>, together with the errors of the Go
  standard library that the readers hand on unchanged: \<^verbatim>\<open>io.EOF\<close> of the buffered
  reader, and the two kinds of \<^verbatim>\<open>*strconv.NumError\<close> (\<^verbatim>\<open>strconv.ErrSyntax\<close>,
  \<^verbatim>\<open>strconv.ErrRange\<close>). \<open>PanicIndexOutOfRange\<close> stands for the run-time panic of
  indexing an empty slice; no reader recovers from it, so it unwinds through every
  caller exactly as the model hands it on.
\<close>

datatype error =
    ErrDictInvalid
  | ErrListInvalid
  | ErrIntInvalid
  | ErrStringInvalid
  | EOF
  | ErrSyntax
  | ErrRange
  | PanicIndexOutOfRange

text \<open>
  What an \<^verbatim>\<open>interface{}\<close> holds after decoding: an \<^verbatim>\<open>int\<close>, a \<^verbatim>\<open>string\<close>, a
  \<^verbatim>\<open>[]interface{}\<close> or a \<^verbatim>\<open>map[string]interface{}\<close>. The map is an association list
  with unique keys, written with \<open>AList.update\<close> (the assignment \<^verbatim>\<open>d[k] = v\<close>: a
  repeated key keeps its place and takes the new value).
\<close>

datatype bvalue =
    Integer int
  | ByteString string
  | List "bvalue list"
  | Dictionary "(string \<times> bvalue) list"

section \<open>The byte source\<close>

text \<open>
  A \<^verbatim>\<open>*bufio.Reader\<close> is modelled by the bytes it has not handed out yet. Each
  operation returns Go's pair of a value and an optional error, and the bytes left.
  \<^verbatim>\<open>ReadByte\<close> returns the zero byte with \<^verbatim>\<open>io.EOF\<close> on an exhausted source;
  \<^verbatim>\<open>Peek(1)\<close> returns the empty slice with \<^verbatim>\<open>io.EOF\<close> there and consumes nothing;
  \<^verbatim>\<open>ReadBytes(delim)\<close> returns the bytes up to and including the first \<^verbatim>\<open>delim\<close>, or
  everything that was left together with \<^verbatim>\<open>io.EOF\<close> when there is none.
\<close>

definition ReadByte :: "string \<Rightarrow> (char \<times> error option) \<times> string" where
  "ReadByte r = (case r of [] \<Rightarrow> ((CHR 0x00, Some EOF), []) | b # r' \<Rightarrow> ((b, None), r'))"

definition Peek1 :: "string \<Rightarrow> string \<times> error option" where
  "Peek1 r = (case r of [] \<Rightarrow> ([], Some EOF) | b # r' \<Rightarrow> ([b], None))"

definition ReadBytes :: "char \<Rightarrow> string \<Rightarrow> (string \<times> error option) \<times> string" where
  "ReadBytes delim r =
     (if delim \<in> set r
      then ((takeWhile (\<lambda>c. c \<noteq> delim) r @ [delim], None),
            tl (dropWhile (\<lambda>c. c \<noteq> delim) r))
      else ((r, Some EOF), []))"

section \<open>strconv.Atoi\<close>

text \<open>
  \<^verbatim>\<open>strconv.Atoi\<close> of the Go standard library, which is \<^verbatim>\<open>ParseInt(s, 10, 0)\<close> with
  a 64-bit \<^verbatim>\<open>int\<close>: an optional sign \<^verbatim>\<open>+\<close> or \<^verbatim>\<open>-\<close>, then at least one decimal digit.
  \<open>ParseUint_loop\<close> is the loop of \<^verbatim>\<open>ParseUint\<close>: a byte that is no digit is a syntax
  error, and a value that leaves the 64 bits of \<^verbatim>\<open>uint64\<close> a range error, whichever
  comes first (\<open>cutoff\<close> is the first number whose tenfold overflows; the accumulator
  is a natural number, with the overflow checks of the source written out). The sign
  is applied afterwards, with the range check of \<^verbatim>\<open>ParseInt\<close> for 64 bits.
\<close>

definition isDigit :: "char \<Rightarrow> bool" where
  "isDigit c = (48 \<le> (of_char c :: nat) \<and> (of_char c :: nat) \<le> 57)"

definition digitVal :: "char \<Rightarrow> nat" where
  "digitVal c = of_char c - 48"

definition maxVal :: nat where
  "maxVal = 2 ^ 64 - 1"

definition cutoff :: nat where
  "cutoff = maxVal div 10 + 1"

fun ParseUint_loop :: "nat \<Rightarrow> string \<Rightarrow> error + nat" where
  "ParseUint_loop n [] = Inr n"
| "ParseUint_loop n (c # cs) =
     (if \<not> isDigit c then Inl ErrSyntax
      else if cutoff \<le> n then Inl ErrRange
      else if maxVal < n * 10 + digitVal c then Inl ErrRange
      else ParseUint_loop (n * 10 + digitVal c) cs)"

definition ParseUint :: "string \<Rightarrow> error + nat" where
  "ParseUint s = (if s = [] then Inl ErrSyntax else ParseUint_loop 0 s)"

definition Atoi :: "string \<Rightarrow> error + int" where
  "Atoi s =
     (if s = [] then Inl ErrSyntax
      else
        let neg = (hd s = CHR ''-'');
            s' = (if hd s = CHR ''+'' \<or> hd s = CHR ''-'' then tl s else s)
        in case ParseUint s' of
             Inl err \<Rightarrow> Inl err
           | Inr un \<Rightarrow>
               if \<not> neg \<and> 2 ^ 63 \<le> un then Inl ErrRange
               else if neg \<and> 2 ^ 63 < un then Inl ErrRange
               else Inr (if neg then - int un else int un))"

section \<open>ReadString and ReadInt\<close>

text \<open>
  \<open>ReadString_loop k bs r\<close> is the \<^verbatim>\<open>for\<close> loop of \<^verbatim>\<open>ReadString\<close> with \<open>k\<close> bytes still
  to read (\<^verbatim>\<open>length - i\<close>) and \<open>bs\<close> read so far. Every failing exit of the readers
  returns the zero value with the error, which is the left injection here.
  \<^verbatim>\<open>ReadInt\<close> ignores the error of its first \<^verbatim>\<open>ReadByte\<close> and compares the byte, which
  is zero on an exhausted source.
\<close>

definition stringSeparator :: char where
  "stringSeparator = CHR '':''"

fun ReadString_loop :: "nat \<Rightarrow> string \<Rightarrow> string \<Rightarrow> (error + string) \<times> string" where
  "ReadString_loop 0 bs r = (Inr bs, r)"
| "ReadString_loop (Suc k) bs r =
     (case ReadByte r of
        ((b, Some err), r') \<Rightarrow> (Inl err, r')
      | ((b, None), r') \<Rightarrow> ReadString_loop k (bs @ [b]) r')"

definition ReadString :: "string \<Rightarrow> (error + string) \<times> string" where
  "ReadString r =
     (case ReadBytes stringSeparator r of
        ((l, Some err), r1) \<Rightarrow> (Inl err, r1)
      | ((l, None), r1) \<Rightarrow>
          (case Atoi (butlast l) of
             Inl err \<Rightarrow> (Inl err, r1)
           | Inr len \<Rightarrow>
               if len < 0 then (Inl ErrStringInvalid, r1)
               else ReadString_loop (nat len) [] r1))"

definition ReadInt :: "string \<Rightarrow> (error + int) \<times> string" where
  "ReadInt r =
     (case ReadByte r of
        ((b, _), r1) \<Rightarrow>
          if b \<noteq> CHR ''i'' then (Inl ErrIntInvalid, r1)
          else
            (case ReadBytes (CHR ''e'') r1 of
               ((bs, Some err), r2) \<Rightarrow> (Inl err, r2)
             | ((bs, None), r2) \<Rightarrow>
                 (case Atoi (butlast bs) of
                    Inl err \<Rightarrow> (Inl ErrIntInvalid, r2)
                  | Inr i \<Rightarrow> (Inr i, r2))))"

subsection \<open>Every reader consumes input\<close>

text \<open>
  Neither \<open>ReadString\<close> nor \<open>ReadInt\<close> hands back more bytes than it was given, and
  on a non-empty source each of them consumes at least one byte. The loops of
  \<open>ReadList\<close> and \<open>ReadDictionary\<close> terminate for this reason.
\<close>

lemma ReadBytes_shorter: "length (snd (ReadBytes c r)) \<le> length r - 1"
proof -
  have "length (dropWhile (\<lambda>x. x \<noteq> c) r) \<le> length r"
    by (rule length_dropWhile_le)
  then show ?thesis by (simp add: ReadBytes_def diff_le_mono)
qed

lemma ReadByte_shorter: "length (snd (ReadByte r)) = length r - 1"
  by (simp add: ReadByte_def split: list.splits)

lemma ReadString_loop_shorter: "length (snd (ReadString_loop k bs r)) \<le> length r"
proof (induction k arbitrary: bs r)
  case 0
  then show ?case by simp
next
  case (Suc k)
  show ?case
  proof (cases r)
    case Nil
    then show ?thesis by (simp add: ReadByte_def)
  next
    case (Cons b r')
    with Suc [of "bs @ [b]" r'] show ?thesis by (simp add: ReadByte_def)
  qed
qed

lemma ReadString_shorter: "length (snd (ReadString r)) \<le> length r - 1"
proof -
  obtain l e r1 where rb: "ReadBytes stringSeparator r = ((l, e), r1)"
    by (metis prod.exhaust)
  have r1: "length r1 \<le> length r - 1"
    using ReadBytes_shorter [of stringSeparator r] rb by simp
  have "length (snd (ReadString_loop k [] r1)) \<le> length r - 1" for k
    using ReadString_loop_shorter [of k "[]" r1] r1 by linarith
  with r1 rb show ?thesis
    by (simp add: ReadString_def split: option.splits sum.splits)
qed

lemma ReadInt_shorter: "length (snd (ReadInt r)) \<le> length r - 1"
proof -
  obtain b e r1 where rb: "ReadByte r = ((b, e), r1)"
    by (metis prod.exhaust)
  have r1: "length r1 = length r - 1"
    using ReadByte_shorter [of r] rb by simp
  obtain bs e' r2 where rbs: "ReadBytes (CHR ''e'') r1 = ((bs, e'), r2)"
    by (metis prod.exhaust)
  have "length r2 \<le> length r1 - 1"
    using ReadBytes_shorter [of "CHR ''e''" r1] rbs by simp
  with r1 have "length r2 \<le> length r - 1" by linarith
  with r1 rb rbs show ?thesis
    by (simp add: ReadInt_def split: option.splits sum.splits)
qed

section \<open>ReadList and ReadDictionary\<close>

text \<open>
  The two container readers call each other and themselves; their \<^verbatim>\<open>for\<close> loops are
  the functions \<open>ReadList_loop\<close> and \<open>ReadDictionary_loop\<close>, which carry the slice
  \<^verbatim>\<open>l\<close> (the map \<^verbatim>\<open>d\<close>) built so far. \<^verbatim>\<open>Peek(1)\<close> leaves the source as it is, so
  the reader chosen by the \<^verbatim>\<open>switch\<close> starts at the byte that was peeked. In
  \<open>ReadDictionary_loop\<close> the error of the first \<^verbatim>\<open>Peek\<close> is not looked at before
  \<^verbatim>\<open>next[0]\<close> is read: on an exhausted source the index is out of range.
\<close>

function ReadList :: "string \<Rightarrow> (error + bvalue list) \<times> string"
  and ReadList_loop :: "bvalue list \<Rightarrow> string \<Rightarrow> (error + bvalue list) \<times> string"
  and ReadDictionary :: "string \<Rightarrow> (error + (string \<times> bvalue) list) \<times> string"
  and ReadDictionary_loop :: "(string \<times> bvalue) list \<Rightarrow> string \<Rightarrow> (error + (string \<times> bvalue) list) \<times> string"
where
  "ReadList r =
     (case ReadByte r of
        ((b, _), r1) \<Rightarrow>
          if b \<noteq> CHR ''l'' then (Inl ErrListInvalid, r1)
          else ReadList_loop [] r1)"
| "ReadList_loop l r =
     (case Peek1 r of
        (next, Some err) \<Rightarrow> (Inl err, r)
      | (next, None) \<Rightarrow>
          if hd next = CHR ''e'' then (Inr l, snd (ReadByte r))
          else if hd next = CHR ''l'' then
            (case ReadList r of
               (Inl err, r1) \<Rightarrow> (Inl err, r1)
             | (Inr list, r1) \<Rightarrow> ReadList_loop (l @ [List list]) r1)
          else if hd next = CHR ''d'' then
            (case ReadDictionary r of
               (Inl err, r1) \<Rightarrow> (Inl err, r1)
             | (Inr dict, r1) \<Rightarrow> ReadList_loop (l @ [Dictionary dict]) r1)
          else if hd next = CHR ''i'' then
            (case ReadInt r of
               (Inl err, r1) \<Rightarrow> (Inl err, r1)
             | (Inr i, r1) \<Rightarrow> ReadList_loop (l @ [Integer i]) r1)
          else
            (case ReadString r of
               (Inl err, r1) \<Rightarrow> (Inl err, r1)
             | (Inr s, r1) \<Rightarrow> ReadList_loop (l @ [ByteString s]) r1))"
| "ReadDictionary r =
     (case ReadByte r of
        ((b, _), r1) \<Rightarrow>
          if b \<noteq> CHR ''d'' then (Inl ErrDictInvalid, r1)
          else ReadDictionary_loop [] r1)"
| "ReadDictionary_loop d r =
     (case Peek1 r of
        (next, _) \<Rightarrow>
          if next = [] then (Inl PanicIndexOutOfRange, r)
          else if hd next = CHR ''e'' then (Inr d, snd (ReadByte r))
          else
            (case ReadString r of
               (Inl err, r1) \<Rightarrow> (Inl err, r1)
             | (Inr k, r1) \<Rightarrow>
                 (case Peek1 r1 of
                    (next, Some err) \<Rightarrow> (Inl err, r1)
                  | (next, None) \<Rightarrow>
                      if hd next = CHR ''d'' then
                        (case ReadDictionary r1 of
                           (Inl err, r2) \<Rightarrow> (Inl err, r2)
                         | (Inr v, r2) \<Rightarrow> ReadDictionary_loop (AList.update k (Dictionary v) d) r2)
                      else if hd next = CHR ''i'' then
                        (case ReadInt r1 of
                           (Inl err, r2) \<Rightarrow> (Inl err, r2)
                         | (Inr v, r2) \<Rightarrow> ReadDictionary_loop (AList.update k (Integer v) d) r2)
                      else if hd next = CHR ''l'' then
                        (case ReadList r1 of
                           (Inl err, r2) \<Rightarrow> (Inl err, r2)
                         | (Inr v, r2) \<Rightarrow> ReadDictionary_loop (AList.update k (List v) d) r2)
                      else
                        (case ReadString r1 of
                           (Inl err, r2) \<Rightarrow> (Inl err, r2)
                         | (Inr v, r2) \<Rightarrow> ReadDictionary_loop (AList.update k (ByteString v) d) r2))))"
  by pat_completeness auto

text \<open>
  Termination: a nested reader leaves strictly fewer bytes than it was given whenever
  the source was not empty. This is shown on the domain of the functions first.
\<close>

lemmas Read_pinduct = ReadList_ReadList_loop_ReadDictionary_ReadDictionary_loop.pinduct

lemma Read_dom_shorter:
  "ReadList_ReadList_loop_ReadDictionary_ReadDictionary_loop_dom (Inl (Inl r1)) \<Longrightarrow>
     length (snd (ReadList r1)) \<le> length r1 - 1"
  "ReadList_ReadList_loop_ReadDictionary_ReadDictionary_loop_dom (Inl (Inr (l, r2))) \<Longrightarrow>
     length (snd (ReadList_loop l r2)) \<le> length r2"
  "ReadList_ReadList_loop_ReadDictionary_ReadDictionary_loop_dom (Inr (Inl r3)) \<Longrightarrow>
     length (snd (ReadDictionary r3)) \<le> length r3 - 1"
  "ReadList_ReadList_loop_ReadDictionary_ReadDictionary_loop_dom (Inr (Inr (d, r4))) \<Longrightarrow>
     length (snd (ReadDictionary_loop d r4)) \<le> length r4"
proof (induct rule: Read_pinduct)
  case (1 r)
  show ?case
  proof (cases r)
    case Nil
    then show ?thesis unfolding ReadList.psimps [OF "1.hyps"(1)] by (simp add: ReadByte_def)
  next
    case (Cons b r')
    then show ?thesis
      using "1.hyps"(2) [of "(b, None)" r' b None]
      unfolding ReadList.psimps [OF "1.hyps"(1)] by (simp add: ReadByte_def)
  qed
next
  case (2 l r)
  show ?case
  proof (cases r)
    case Nil
    then show ?thesis unfolding ReadList_loop.psimps [OF "2.hyps"(1)] by (simp add: Peek1_def)
  next
    case (Cons c r')
    note pk = Cons
    have rs: "length (snd (ReadString r)) \<le> length r - 1"
      and ri: "length (snd (ReadInt r)) \<le> length r - 1"
      by (rule ReadString_shorter, rule ReadInt_shorter)
    show ?thesis
      using "2.hyps"(2-7) [of "[c]" None] rs ri
      unfolding ReadList_loop.psimps [OF "2.hyps"(1)]
      apply (simp add: Peek1_def ReadByte_def pk split: prod.splits sum.splits)
      apply (auto simp: pk)
      done
  qed
next
  case (3 r)
  show ?case
  proof (cases r)
    case Nil
    then show ?thesis unfolding ReadDictionary.psimps [OF "3.hyps"(1)] by (simp add: ReadByte_def)
  next
    case (Cons b r')
    then show ?thesis
      using "3.hyps"(2) [of "(b, None)" r' b None]
      unfolding ReadDictionary.psimps [OF "3.hyps"(1)] by (simp add: ReadByte_def)
  qed
next
  case (4 d r)
  note eq = ReadDictionary_loop.psimps [OF "4.hyps"(1)]
  show ?case
  proof (cases r)
    case Nil
    then show ?thesis unfolding eq by (simp add: Peek1_def)
  next
    case (Cons c r')
    have pk0: "Peek1 r = ([c], None)" by (simp add: Peek1_def Cons)
    have rb: "snd (ReadByte r) = r'" by (simp add: ReadByte_def Cons)
    have len: "length r = Suc (length r')" by (simp add: Cons)
    obtain k0 r1 where rs: "ReadString r = (k0, r1)" by (metis prod.exhaust)
    have r1: "length r1 \<le> length r - 1"
      using ReadString_shorter [of r] rs by simp
    show ?thesis
    proof (cases "c = CHR ''e''")
      case True
      then show ?thesis unfolding eq by (simp add: pk0 rb len)
    next
      case ne: False
      show ?thesis
      proof (cases k0)
        case (Inl err)
        then show ?thesis unfolding eq
          using r1 ne by (simp add: pk0 rs)
      next
        case (Inr k)
        show ?thesis
        proof (cases r1)
          case Nil
          have pk1: "Peek1 r1 = ([], Some EOF)" by (simp add: Peek1_def Nil)
          show ?thesis unfolding eq
            using ne Inr r1 by (simp add: pk0 rs pk1)
        next
          case (Cons c1 r1')
          have rs1: "length (snd (ReadString r1)) \<le> length r1 - 1"
            and ri1: "length (snd (ReadInt r1)) \<le> length r1 - 1"
            by (rule ReadString_shorter, rule ReadInt_shorter)
          have hd: "hd [c] \<noteq> CHR ''e''" "[c] \<noteq> []" using ne by simp_all
          have pk1: "Peek1 r1 = ([c1], None)" by (simp add: Peek1_def Cons)
          note ih = "4.hyps"(2-7) [OF pk0 [symmetric] hd(2) hd(1) rs [symmetric] Inr pk1 [symmetric] refl]
          show ?thesis unfolding eq
            using ih rs1 ri1 r1 ne Inr
            apply (simp add: pk0 pk1 rs split: prod.splits sum.splits)
            apply auto
            done
        qed
      qed
    qed
  qed
qed

lemma consumed_lt:
  "(res, ya) = p \<Longrightarrow> length (snd p) \<le> length r - 1 \<Longrightarrow> (x, y) = Peek1 r \<Longrightarrow> x \<noteq> [] \<Longrightarrow>
     length ya < length r"
  by (cases r) (auto simp: Peek1_def)

lemma consumed_le:
  "(res, ya) = p \<Longrightarrow> length (snd p) \<le> length r - 1 \<Longrightarrow> length ya \<le> length r"
  by auto

lemma Peek1_None: "(x, None) = Peek1 r \<Longrightarrow> x \<noteq> []"
  by (cases r) (auto simp: Peek1_def)

lemma ReadByte_lt:
  "(x, y) = ReadByte r \<Longrightarrow> (c, e) = x \<Longrightarrow> c \<noteq> CHR 0x00 \<Longrightarrow> Suc (2 * length y) < 2 * length r"
  by (cases r) (auto simp: ReadByte_def)

termination ReadList
proof (relation "measure (\<lambda>x. case x of Inl (Inl r) \<Rightarrow> 2 * length r
     | Inl (Inr (l, r)) \<Rightarrow> 2 * length r + 1
     | Inr (Inl r) \<Rightarrow> 2 * length r
     | Inr (Inr (d, r)) \<Rightarrow> 2 * length r + 1)", goal_cases)
  case 1
  show ?case by simp
next
  case (2 r x y xa ya)
  then show ?case using ReadByte_lt [of x y r xa ya] by simp
next
  case (3 l r x y)
  show ?case by simp
next
  case (4 l r x y xa ya b)
  have "length ya < length r"
    using "4" by (intro consumed_lt [OF "4"(5) Read_dom_shorter(1) [OF "4"(7)] "4"(1)])
       (simp add: Peek1_None)
  then show ?case by simp
next
  case (5 l r x y)
  show ?case by simp
next
  case (6 l r x y xa ya b)
  have "length ya < length r"
    using "6" by (intro consumed_lt [OF "6"(6) Read_dom_shorter(3) [OF "6"(8)] "6"(1)])
       (simp add: Peek1_None)
  then show ?case by simp
next
  case (7 l r x y xa ya b)
  have "length ya < length r"
    using "7" by (intro consumed_lt [OF "7"(7) ReadInt_shorter "7"(1)])
       (simp add: Peek1_None)
  then show ?case by simp
next
  case (8 l r x y xa ya b)
  have "length ya < length r"
    using "8" by (intro consumed_lt [OF "8"(7) ReadString_shorter "8"(1)])
       (simp add: Peek1_None)
  then show ?case by simp
next
  case (9 r x y xa ya)
  then show ?case using ReadByte_lt [of x y r xa ya] by simp
next
  case (10 d r x y xa ya b xb yb)
  have "length ya < length r"
    by (rule consumed_lt [OF "10"(4) ReadString_shorter "10"(1) "10"(2)])
  then show ?case by simp
next
  case (11 d r x y xa ya b xb yb xc yc ba)
  have a: "length ya < length r"
    by (rule consumed_lt [OF "11"(4) ReadString_shorter "11"(1) "11"(2)])
  have "length yc \<le> length ya"
    by (rule consumed_le [OF "11"(9) Read_dom_shorter(3) [OF "11"(11)]])
  with a show ?case by simp
next
  case (12 d r x y xa ya b xb yb xc yc ba)
  have a: "length ya < length r"
    by (rule consumed_lt [OF "12"(4) ReadString_shorter "12"(1) "12"(2)])
  have "length yc \<le> length ya"
    by (rule consumed_le [OF "12"(10) ReadInt_shorter])
  with a show ?case by simp
next
  case (13 d r x y xa ya b xb yb)
  have "length ya < length r"
    by (rule consumed_lt [OF "13"(4) ReadString_shorter "13"(1) "13"(2)])
  then show ?case by simp
next
  case (14 d r x y xa ya b xb yb xc yc ba)
  have a: "length ya < length r"
    by (rule consumed_lt [OF "14"(4) ReadString_shorter "14"(1) "14"(2)])
  have "length yc \<le> length ya"
    by (rule consumed_le [OF "14"(11) Read_dom_shorter(1) [OF "14"(13)]])
  with a show ?case by simp
next
  case (15 d r x y xa ya b xb yb xc yc ba)
  have a: "length ya < length r"
    by (rule consumed_lt [OF "15"(4) ReadString_shorter "15"(1) "15"(2)])
  have "length yc \<le> length ya"
    by (rule consumed_le [OF "15"(11) ReadString_shorter])
  with a show ?case by simp
qed

section \<open>Notions of the specification\<close>

text \<open>
  The notation \<^verbatim>\<open><n>\<close> of the specification: the decimal digits of a number, most
  significant first and without padding, as \<^verbatim>\<open>strconv.Itoa\<close> prints them.
  \<open>paddedDecimal k i\<close> is the signed form with \<open>k\<close> zeros before the digits.
\<close>

definition digitChar :: "nat \<Rightarrow> char" where
  "digitChar d = char_of (48 + d)"

fun decimal :: "nat \<Rightarrow> string" where
  "decimal n = (if n < 10 then [digitChar n] else decimal (n div 10) @ [digitChar (n mod 10)])"

declare decimal.simps [simp del]

definition paddedDecimal :: "nat \<Rightarrow> int \<Rightarrow> string" where
  "paddedDecimal k i =
     (if i < 0 then CHR ''-'' # replicate k (CHR ''0'') @ decimal (nat (- i))
      else replicate k (CHR ''0'') @ decimal (nat i))"



text \<open>
  The \<^verbatim>\<open>switch\<close> on the peeked byte, which both loops contain, as one function: the
  reader it selects, its result as an \<^verbatim>\<open>interface{}\<close>. \<open>ReadDictionary_value\<close> is the
  second half of the body of the loop of \<^verbatim>\<open>ReadDictionary\<close>, after the key. Both are
  proved equal to the code of the loops below (\<open>ReadList_loop_switch\<close>,
  \<open>ReadDictionary_loop_key\<close>, \<open>ReadDictionary_value_switch\<close>).
\<close>

definition wrap :: "('a \<Rightarrow> bvalue) \<Rightarrow> (error + 'a) \<times> string \<Rightarrow> (error + bvalue) \<times> string" where
  "wrap V p = (case p of (Inl err, r1) \<Rightarrow> (Inl err, r1) | (Inr y, r1) \<Rightarrow> (Inr (V y), r1))"



section \<open>The readers on an empty and on a non-empty source\<close>

text \<open>
  The defining equations, specialised to the two shapes of the source. They replace
  the raw equations in the simplifier, which then runs a reader on a literal input.
\<close>

declare ReadList.simps [simp del] ReadList_loop.simps [simp del]
  ReadDictionary.simps [simp del] ReadDictionary_loop.simps [simp del]

lemma ReadList_Nil: "ReadList [] = (Inl ErrListInvalid, [])"
  by (simp add: ReadList.simps ReadByte_def)

lemma ReadList_Cons:
  "ReadList (b # r) = (if b \<noteq> CHR ''l'' then (Inl ErrListInvalid, r) else ReadList_loop [] r)"
  by (simp add: ReadList.simps ReadByte_def)

lemma ReadList_loop_Nil: "ReadList_loop l [] = (Inl EOF, [])"
  by (simp add: ReadList_loop.simps Peek1_def)

lemma ReadList_loop_Cons:
  "ReadList_loop l (c # r) =
     (if c = CHR ''e'' then (Inr l, r)
      else if c = CHR ''l'' then
        (case ReadList (c # r) of
           (Inl err, r1) \<Rightarrow> (Inl err, r1)
         | (Inr list, r1) \<Rightarrow> ReadList_loop (l @ [List list]) r1)
      else if c = CHR ''d'' then
        (case ReadDictionary (c # r) of
           (Inl err, r1) \<Rightarrow> (Inl err, r1)
         | (Inr dict, r1) \<Rightarrow> ReadList_loop (l @ [Dictionary dict]) r1)
      else if c = CHR ''i'' then
        (case ReadInt (c # r) of
           (Inl err, r1) \<Rightarrow> (Inl err, r1)
         | (Inr i, r1) \<Rightarrow> ReadList_loop (l @ [Integer i]) r1)
      else
        (case ReadString (c # r) of
           (Inl err, r1) \<Rightarrow> (Inl err, r1)
         | (Inr s, r1) \<Rightarrow> ReadList_loop (l @ [ByteString s]) r1))"
  by (subst ReadList_loop.simps) (simp add: Peek1_def ReadByte_def)

lemma ReadDictionary_Nil: "ReadDictionary [] = (Inl ErrDictInvalid, [])"
  by (simp add: ReadDictionary.simps ReadByte_def)

lemma ReadDictionary_Cons:
  "ReadDictionary (b # r) =
     (if b \<noteq> CHR ''d'' then (Inl ErrDictInvalid, r) else ReadDictionary_loop [] r)"
  by (simp add: ReadDictionary.simps ReadByte_def)

lemma ReadDictionary_loop_Nil: "ReadDictionary_loop d [] = (Inl PanicIndexOutOfRange, [])"
  by (simp add: ReadDictionary_loop.simps Peek1_def)

lemma Peek1_Nil: "Peek1 [] = ([], Some EOF)"
  by (simp add: Peek1_def)

lemma Peek1_Cons: "Peek1 (c # r) = ([c], None)"
  by (simp add: Peek1_def)

lemma ReadDictionary_loop_Cons:
  "ReadDictionary_loop d (c # r) =
     (if c = CHR ''e'' then (Inr d, r)
      else
        (case ReadString (c # r) of
           (Inl err, r1) \<Rightarrow> (Inl err, r1)
         | (Inr k, r1) \<Rightarrow>
             (case Peek1 r1 of
                (next, Some err) \<Rightarrow> (Inl err, r1)
              | (next, None) \<Rightarrow>
                  if hd next = CHR ''d'' then
                    (case ReadDictionary r1 of
                       (Inl err, r2) \<Rightarrow> (Inl err, r2)
                     | (Inr v, r2) \<Rightarrow> ReadDictionary_loop (AList.update k (Dictionary v) d) r2)
                  else if hd next = CHR ''i'' then
                    (case ReadInt r1 of
                       (Inl err, r2) \<Rightarrow> (Inl err, r2)
                     | (Inr v, r2) \<Rightarrow> ReadDictionary_loop (AList.update k (Integer v) d) r2)
                  else if hd next = CHR ''l'' then
                    (case ReadList r1 of
                       (Inl err, r2) \<Rightarrow> (Inl err, r2)
                     | (Inr v, r2) \<Rightarrow> ReadDictionary_loop (AList.update k (List v) d) r2)
                  else
                    (case ReadString r1 of
                       (Inl err, r2) \<Rightarrow> (Inl err, r2)
                     | (Inr v, r2) \<Rightarrow> ReadDictionary_loop (AList.update k (ByteString v) d) r2))))"
  by (subst ReadDictionary_loop.simps) (simp add: Peek1_Cons ReadByte_def)

lemmas Read_simps = ReadList_Nil ReadList_Cons ReadList_loop_Nil ReadList_loop_Cons
  ReadDictionary_Nil ReadDictionary_Cons ReadDictionary_loop_Nil ReadDictionary_loop_Cons
  Peek1_Nil Peek1_Cons

lemma ReadString_loop_Nil: "ReadString_loop (Suc k) bs [] = (Inl EOF, [])"
  by (simp add: ReadByte_def)

lemma ReadString_loop_Cons: "ReadString_loop (Suc k) bs (b # r) = ReadString_loop k (bs @ [b]) r"
  by (simp add: ReadByte_def)

lemma ReadString_loop_numeral_Nil: "ReadString_loop (numeral n) bs [] = (Inl EOF, [])"
  by (simp only: numeral_eq_Suc ReadString_loop_Nil)

lemma ReadString_loop_numeral_Cons:
  "ReadString_loop (numeral n) bs (b # r) = ReadString_loop (pred_numeral n) (bs @ [b]) r"
  by (simp only: numeral_eq_Suc ReadString_loop_Cons)

lemmas reader_defs = ReadString_loop_numeral_Nil ReadString_loop_numeral_Cons ReadInt_def ReadString_def stringSeparator_def ReadByte_def ReadBytes_def
  Atoi_def ParseUint_def isDigit_def digitVal_def cutoff_def maxVal_def



lemma wrap_Inl: "wrap V p = (Inl e, r1) \<Longrightarrow> p = (Inl e, r1)"
  by (cases p, cases "fst p") (auto simp: wrap_def)

lemma wrap_Inr: "wrap V p = (Inr x, r1) \<Longrightarrow> \<exists>y. p = (Inr y, r1) \<and> x = V y"
  by (cases p, cases "fst p") (auto simp: wrap_def)



section \<open>Atoi reads decimal notation back\<close>

lemma of_char_digitChar: "d < 10 \<Longrightarrow> (of_char (digitChar d) :: nat) = 48 + d"
  by (simp add: digitChar_def)

lemma isDigit_digitChar: "d < 10 \<Longrightarrow> isDigit (digitChar d)"
  by (simp add: isDigit_def of_char_digitChar)

lemma digitVal_digitChar: "d < 10 \<Longrightarrow> digitVal (digitChar d) = d"
  by (simp add: digitVal_def of_char_digitChar)

lemma decimal_digits: "c \<in> set (decimal n) \<Longrightarrow> isDigit c"
proof (induction n rule: decimal.induct)
  case (1 n)
  show ?case
  proof (cases "n < 10")
    case True
    with "1.prems" show ?thesis by (simp add: decimal.simps [of n] isDigit_digitChar)
  next
    case False
    with "1.prems" "1.IH" show ?thesis
      by (auto simp: decimal.simps [of n] isDigit_digitChar)
  qed
qed

lemma decimal_not_Nil: "decimal n \<noteq> []"
  by (subst decimal.simps) simp

lemma ParseUint_loop_append:
  "ParseUint_loop n (xs @ ys) =
     (case ParseUint_loop n xs of Inl e \<Rightarrow> Inl e | Inr m \<Rightarrow> ParseUint_loop m ys)"
  by (induction xs arbitrary: n) simp_all

lemma ParseUint_loop_decimal: "n < 2 ^ 64 \<Longrightarrow> ParseUint_loop 0 (decimal n) = Inr n"
proof (induction n rule: decimal.induct)
  case (1 n)
  show ?case
  proof (cases "n < 10")
    case True
    then show ?thesis
      by (simp add: decimal.simps [of n] isDigit_digitChar digitVal_digitChar cutoff_def maxVal_def)
  next
    case False
    have d: "n mod 10 < 10" by simp
    have q: "n div 10 < 2 ^ 64" using "1.prems" by simp
    have c: "\<not> cutoff \<le> n div 10" using "1.prems" by (simp add: cutoff_def maxVal_def)
    have m: "\<not> maxVal < n div 10 * 10 + n mod 10" using "1.prems" by (simp add: maxVal_def)
    from False "1.IH" q have "ParseUint_loop 0 (decimal (n div 10)) = Inr (n div 10)" by simp
    with False c m show ?thesis
      by (simp add: decimal.simps [of n] ParseUint_loop_append isDigit_digitChar digitVal_digitChar d)
  qed
qed

lemma isDigit_zero: "isDigit (CHR ''0'')" "digitVal (CHR ''0'') = 0"
  by (simp_all add: isDigit_def digitVal_def)

lemma ParseUint_loop_zeros:
  "ParseUint_loop 0 (replicate k (CHR ''0'') @ s) = ParseUint_loop 0 s"
  by (induction k) (simp_all add: isDigit_zero cutoff_def maxVal_def)

lemma ParseUint_padded:
  "n < 2 ^ 64 \<Longrightarrow> ParseUint (replicate k (CHR ''0'') @ decimal n) = Inr n"
  by (simp add: ParseUint_def decimal_not_Nil ParseUint_loop_zeros ParseUint_loop_decimal)

lemma not_digit_chars:
  "\<not> isDigit (CHR ''-'')" "\<not> isDigit (CHR ''+'')" "\<not> isDigit (CHR '':'')" "\<not> isDigit (CHR ''e'')"
  by (simp_all add: isDigit_def)

lemma hd_padded_digit: "isDigit (hd (replicate k (CHR ''0'') @ decimal n))"
proof (cases k)
  case 0
  then show ?thesis using decimal_digits [of "hd (decimal n)" n] decimal_not_Nil [of n] by simp
next
  case (Suc j)
  then show ?thesis by (simp add: isDigit_zero)
qed

lemma Atoi_paddedDecimal:
  assumes "- (2 ^ 63) \<le> i" "i < 2 ^ 63"
  shows "Atoi (paddedDecimal k i) = Inr i"
proof (cases "i < 0")
  case True
  let ?n = "nat (- i)"
  have n: "?n \<le> 2 ^ 63" using assms True by (simp add: nat_le_iff)
  then have "?n < 2 ^ 64" by simp
  then have "ParseUint (replicate k (CHR ''0'') @ decimal ?n) = Inr ?n" by (rule ParseUint_padded)
  with True n show ?thesis by (simp add: Atoi_def paddedDecimal_def)
next
  case False
  let ?n = "nat i"
  let ?s = "replicate k (CHR ''0'') @ decimal ?n"
  have n: "?n < 2 ^ 63" using assms False by (simp add: nat_less_iff)
  then have "?n < 2 ^ 64" by simp
  then have p: "ParseUint ?s = Inr ?n" by (rule ParseUint_padded)
  have h: "hd ?s \<noteq> CHR ''-''" "hd ?s \<noteq> CHR ''+''"
    using hd_padded_digit [of k ?n] not_digit_chars by auto
  have ne: "?s \<noteq> []" by (simp add: decimal_not_Nil)
  from False n p h ne show ?thesis by (simp add: Atoi_def paddedDecimal_def)
qed

lemma decimal_no_colon: "CHR '':'' \<notin> set (decimal n)"
  using decimal_digits [of "CHR '':''" n] not_digit_chars by blast

lemma decimal_no_e: "CHR ''e'' \<notin> set (decimal n)"
  using decimal_digits [of "CHR ''e''" n] not_digit_chars by blast

lemma paddedDecimal_no_e: "CHR ''e'' \<notin> set (paddedDecimal k i)"
  by (auto simp: paddedDecimal_def decimal_no_e)

lemma Atoi_decimal: "n < 2 ^ 63 \<Longrightarrow> Atoi (decimal n) = Inr (int n)"
  using Atoi_paddedDecimal [of "int n" 0] by (simp add: paddedDecimal_def)

lemma decimal_small: "n < 10 \<Longrightarrow> decimal n = [digitChar n]"
  by (simp add: decimal.simps [of n])

lemma decimal_numeral:
  "decimal (numeral k) =
     (if (numeral k :: nat) < 10 then [digitChar (numeral k)]
      else decimal (numeral k div 10) @ [digitChar (numeral k mod 10)])"
  by (rule decimal.simps)

lemma digitChar_simps:
  "digitChar 0 = CHR ''0''" "digitChar (Suc 0) = CHR ''1''" "digitChar 2 = CHR ''2''"
  "digitChar 3 = CHR ''3''" "digitChar 4 = CHR ''4''" "digitChar 5 = CHR ''5''"
  "digitChar 6 = CHR ''6''" "digitChar 7 = CHR ''7''" "digitChar 8 = CHR ''8''"
  "digitChar 9 = CHR ''9''"
  by (simp_all add: digitChar_def char_of_def bit_Suc_0_iff)

lemma decimal_0_1: "decimal 0 = ''0''" "decimal (Suc 0) = ''1''"
  by (simp_all add: decimal_small digitChar_simps)

lemmas decimal_eval = decimal_numeral decimal_0_1 digitChar_simps

lemma decimal_2_63: "decimal 9223372036854775808 = ''9223372036854775808''"
  by (simp add: decimal_eval)

section \<open>Delimited reads and the byte loop\<close>

lemma ReadBytes_found:
  "delim \<notin> set p \<Longrightarrow> ReadBytes delim (p @ delim # rest) = ((p @ [delim], None), rest)"
proof -
  assume a: "delim \<notin> set p"
  then have t: "takeWhile (\<lambda>c. c \<noteq> delim) (p @ delim # rest) = p"
    by (induction p) auto
  from a have d: "dropWhile (\<lambda>c. c \<noteq> delim) (p @ delim # rest) = delim # rest"
    by (induction p) auto
  show ?thesis by (simp add: ReadBytes_def t d)
qed


lemma ReadString_loop_exact:
  "ReadString_loop (length b) bs (b @ rest) = (Inr (bs @ b), rest)"
  by (induction b arbitrary: bs) (simp_all add: ReadByte_def)

lemma ReadString_loop_short:
  "length b < k \<Longrightarrow> ReadString_loop k bs b = (Inl EOF, [])"
proof (induction b arbitrary: k bs)
  case Nil
  then obtain j where "k = Suc j" by (cases k) auto
  then show ?case by (simp add: ReadByte_def)
next
  case (Cons x b)
  then obtain j where k: "k = Suc j" by (cases k) auto
  with Cons.prems have "length b < j" by simp
  then have "ReadString_loop j (bs @ [x]) b = (Inl EOF, [])" by (rule Cons.IH)
  with k show ?case by (simp add: ReadByte_def)
qed


lemma ReadString_prefix:
  assumes "CHR '':'' \<notin> set p" and "Atoi p = Inr n" and "0 \<le> n"
  shows "ReadString (p @ CHR '':'' # r) = ReadString_loop (nat n) [] r"
  using assms by (simp add: ReadString_def stringSeparator_def ReadBytes_found)

lemma ReadString_huge_length:
  "ReadString (''9223372036854775808'' @ CHR '':'' # b) = (Inl ErrRange, b)"
proof -
  have c: "CHR '':'' \<notin> set ''9223372036854775808''" by simp
  have a: "Atoi ''9223372036854775808'' = Inl ErrRange"
    by (simp add: Atoi_def ParseUint_def isDigit_def digitVal_def cutoff_def maxVal_def)
  show ?thesis
    unfolding ReadString_def stringSeparator_def ReadBytes_found [OF c]
    by (simp add: a)
qed

section \<open>Exactly the bytes of one value\<close>












section \<open>Errors of nested reads\<close>






section \<open>The claims\<close>

subsection \<open>Error kinds at the boundaries of the readers\<close>

text \<open>
  C1. The claim: when the source ends while \<open>ReadInt\<close> looks for the closing \<^verbatim>\<open>e\<close>, the
  reader fails with \<open>ErrIntInvalid\<close>; so do \<^verbatim>\<open>i0\<close>, and \<^verbatim>\<open>li0\<close> read as a list. The
  code hands on the error of \<^verbatim>\<open>ReadBytes\<close> as it is: both inputs fail with \<open>EOF\<close>,
  where the tests of the package expect \<open>ErrIntInvalid\<close>.
\<close>

theorem ReadInt_unterminated_is_EOF:
  "ReadInt ''i0'' = (Inl EOF, []) \<and> ReadList ''li0'' = (Inl EOF, [])"
  by (simp add: Read_simps reader_defs)

text \<open>
  C2. The claim: a malformed length prefix (no \<^verbatim>\<open>:\<close> before the end of the input, bytes
  that are not a number, a negative length) makes \<open>ReadString\<close> fail with
  \<open>ErrStringInvalid\<close>. Only the negative length does: a missing \<^verbatim>\<open>:\<close> fails with
  \<open>EOF\<close>, and an unparsable length with the syntax error of \<^verbatim>\<open>strconv.Atoi\<close>.
\<close>

theorem ReadString_malformed_prefix_errors:
  "ReadString ''aaaa'' = (Inl EOF, []) \<and>
   ReadString '':aaaa'' = (Inl ErrSyntax, ''aaaa'') \<and>
   ReadString ''-5:aaaaa'' = (Inl ErrStringInvalid, ''aaaaa'')"
  by (simp add: reader_defs)

text \<open>
  C3. The claim: a failing \<^verbatim>\<open>Peek\<close> at the head of the loop of \<open>ReadDictionary\<close> is
  handed to the caller, so that \<^verbatim>\<open>ld\<close>, read as a list, fails with \<open>EOF\<close>. The loop
  indexes the peeked slice before it looks at the error: on an exhausted source the
  slice is empty and the read panics, whatever has been accumulated.
\<close>

theorem ReadDictionary_exhausted_peek_panics:
  "ReadDictionary_loop d [] = (Inl PanicIndexOutOfRange, []) \<and>
   ReadDictionary ''d'' = (Inl PanicIndexOutOfRange, []) \<and>
   ReadList ''ld'' = (Inl PanicIndexOutOfRange, [])"
  by (simp add: Read_simps)

text \<open>
  C4. The claim: an integer in key position, as in \<^verbatim>\<open>di1e1:ae\<close>, makes
  \<open>ReadDictionary\<close> fail with \<open>ErrStringInvalid\<close>. The key is read by \<open>ReadString\<close>,
  which takes \<^verbatim>\<open>i1e1\<close> for the length and returns the syntax error of
  \<^verbatim>\<open>strconv.Atoi\<close> unchanged.
\<close>

theorem ReadDictionary_integer_key_error:
  "ReadDictionary ''di1e1:ae'' = (Inl ErrSyntax, ''ae'')"
  by (simp add: Read_simps reader_defs)

subsection \<open>Byte strings\<close>

text \<open>
  C5. After a well-formed prefix (bytes without \<^verbatim>\<open>:\<close> that \<^verbatim>\<open>Atoi\<close> reads as a length
  \<open>n \<ge> 0\<close>, then \<^verbatim>\<open>:\<close>), a payload of fewer than \<open>n\<close> bytes makes \<open>ReadString\<close> fail
  with the \<open>EOF\<close> of \<^verbatim>\<open>ReadByte\<close>, not with \<open>ErrStringInvalid\<close>; \<^verbatim>\<open>5:a\<close> is such an
  input.
\<close>

theorem ReadString_truncated_payload:
  assumes "CHR '':'' \<notin> set p" and "Atoi p = Inr n" and "0 \<le> n"
    and "int (length b) < n"
  shows "ReadString (p @ CHR '':'' # b) = (Inl EOF, [])"
proof -
  from assms(3,4) have "length b < nat n" by linarith
  then have "ReadString_loop (nat n) [] b = (Inl EOF, [])" by (rule ReadString_loop_short)
  with ReadString_prefix [OF assms(1-3)] show ?thesis by simp
qed

theorem ReadString_truncated_payload_witness:
  "CHR '':'' \<notin> set ''5'' \<and> Atoi ''5'' = Inr 5 \<and> ReadString ''5:a'' = (Inl EOF, [])"
proof -
  have c: "CHR '':'' \<notin> set ''5''" by simp
  have a: "Atoi ''5'' = Inr 5"
    by (simp add: Atoi_def ParseUint_def isDigit_def digitVal_def cutoff_def maxVal_def)
  have "ReadString (''5'' @ CHR '':'' # ''a'') = (Inl EOF, [])"
    by (rule ReadString_truncated_payload [OF c a]) simp_all
  with c a show ?thesis by simp
qed

text \<open>
  C6, as amended. For every byte string \<open>b\<close> whose length \<open>n\<close> is in the range of a
  64-bit \<^verbatim>\<open>int\<close>, \<open>ReadString\<close> reads the decimal digits of \<open>n\<close>, a \<^verbatim>\<open>:\<close> and \<open>b\<close>
  back as \<open>b\<close>; the empty string is the case \<open>n = 0\<close>.
\<close>

theorem ReadString_decodes_payload:
  assumes "length b = n" and "n < 2 ^ 63"
  shows "ReadString (decimal n @ CHR '':'' # b) = (Inr b, [])"
proof -
  have "ReadString (decimal n @ CHR '':'' # b) = ReadString_loop (nat (int n)) [] b"
    by (rule ReadString_prefix [OF decimal_no_colon Atoi_decimal [OF assms(2)]]) simp
  also have "\<dots> = ReadString_loop (length b) [] (b @ [])" using assms(1) by simp
  also have "\<dots> = (Inr ([] @ b), [])" by (rule ReadString_loop_exact)
  finally show ?thesis by simp
qed

theorem ReadString_decodes_payload_witness:
  "ReadString ''0:'' = (Inr [], []) \<and> ReadString ''4:wiki'' = (Inr ''wiki'', [])"
proof -
  have 0: "decimal 0 = ''0''" and 4: "decimal 4 = ''4''"
    by (simp_all add: decimal_small digitChar_def char_of_def bit_Suc_0_iff)
  show ?thesis
    using ReadString_decodes_payload [of "[]" 0] ReadString_decodes_payload [of "''wiki''" 4]
    by (simp add: 0 4)
qed

text \<open>
  The claim as stated, for every length, fails at the first length beyond the range:
  \<^verbatim>\<open>Atoi\<close> reports a range error, which \<open>ReadString\<close> returns before it reads any
  byte of the payload.
\<close>

theorem ReadString_length_out_of_range_counterexample:
  "length (replicate (2 ^ 63) (CHR ''a'')) = 2 ^ 63 \<and>
   decimal (2 ^ 63) = ''9223372036854775808'' \<and>
   ReadString (''9223372036854775808'' @ CHR '':'' # replicate (2 ^ 63) (CHR ''a'')) =
     (Inl ErrRange, replicate (2 ^ 63) (CHR ''a''))"
proof (intro conjI)
  show "length (replicate (2 ^ 63) (CHR ''a'')) = 2 ^ 63" by (rule length_replicate)
  show "decimal (2 ^ 63) = ''9223372036854775808''" by (simp add: decimal_2_63)
  show "ReadString (''9223372036854775808'' @ CHR '':'' # replicate (2 ^ 63) (CHR ''a'')) =
     (Inl ErrRange, replicate (2 ^ 63) (CHR ''a''))"
    by (rule ReadString_huge_length)
qed

subsection \<open>Integers\<close>

text \<open>
  C7, as amended. For every \<open>i\<close> of the 64-bit range of \<^verbatim>\<open>int\<close>, \<open>ReadInt\<close> reads
  \<^verbatim>\<open>i\<close>, the decimal notation of \<open>i\<close> with any number of zeros before the digits, and
  \<^verbatim>\<open>e\<close> back as \<open>i\<close>; all the padded forms of zero give 0.
\<close>

theorem ReadInt_decodes_int64:
  assumes "- (2 ^ 63) \<le> i" and "i < 2 ^ 63"
  shows "ReadInt (CHR ''i'' # paddedDecimal k i @ ''e'') = (Inr i, [])"
proof -
  have "ReadBytes (CHR ''e'') (paddedDecimal k i @ CHR ''e'' # []) =
      ((paddedDecimal k i @ [CHR ''e''], None), [])"
    by (rule ReadBytes_found [OF paddedDecimal_no_e])
  then show ?thesis
    by (simp add: ReadInt_def ReadByte_def Atoi_paddedDecimal [OF assms])
qed

theorem ReadInt_decodes_int64_witness:
  "- (2 ^ 63) \<le> (0::int) \<and> (0::int) < 2 ^ 63 \<and>
   ReadInt ''i0e'' = (Inr 0, []) \<and> ReadInt ''i000e'' = (Inr 0, []) \<and>
   ReadInt ''i-7e'' = (Inr (- 7), [])"
proof -
  have a: "- (2 ^ 63) \<le> (0::int)" "(0::int) < 2 ^ 63" by simp_all
  have b: "- (2 ^ 63) \<le> (- 7::int)" "(- 7::int) < 2 ^ 63" by simp_all
  show ?thesis
    using ReadInt_decodes_int64 [OF a, of 0] ReadInt_decodes_int64 [OF a, of "Suc (Suc 0)"]
      ReadInt_decodes_int64 [OF b, of 0]
    by (simp add: paddedDecimal_def decimal_eval)
qed

text \<open>
  The claim as stated, for every integer, fails at the first integer beyond the range:
  \<^verbatim>\<open>Atoi\<close> reports a range error, which \<open>ReadInt\<close> turns into \<open>ErrIntInvalid\<close>.
\<close>

theorem ReadInt_out_of_range_counterexample:
  "paddedDecimal 0 (2 ^ 63) = ''9223372036854775808'' \<and>
   ReadInt ''i9223372036854775808e'' = (Inl ErrIntInvalid, [])"
  by (simp add: paddedDecimal_def decimal_2_63 reader_defs)

subsection \<open>What a successful read consumes\<close>



subsection \<open>Failures inside a container\<close>



subsection \<open>An explicit plus sign\<close>

text \<open>
  C10. \<^verbatim>\<open>strconv.Atoi\<close> takes an optional \<^verbatim>\<open>+\<close> before the digits, so \<open>ReadInt\<close> reads
  \<^verbatim>\<open>i+5e\<close> as 5 and \<open>ReadString\<close> reads \<^verbatim>\<open>+1:a\<close> as the string \<^verbatim>\<open>a\<close>, although the
  grammar of the format has no such sign.
\<close>

theorem plus_sign_accepted:
  "ReadInt ''i+5e'' = (Inr 5, []) \<and> ReadString ''+1:a'' = (Inr ''a'', [])"
  by (simp add: reader_defs)

end
